theory Spec2Isabelle
  imports Main "HOL-Library.AList" "HOL-Library.Word"
begin

unbundle bit_operations_syntax

section \<open>Strings\<close>

text \<open>
  A Go string is a sequence of bytes; it is modelled as a \<open>string\<close> (a list of
  \<open>char\<close>, one per byte).  \<open>strings.HasPrefix(s, prefix)\<close> is
  \<open>len(s) >= len(prefix) && s[:len(prefix)] == prefix\<close>.
\<close>

definition HasPrefix :: "string \<Rightarrow> string \<Rightarrow> bool" where
  "HasPrefix s p = (take (length p) s = p)"

text \<open>
  \<open>strings.TrimSpace\<close> removes all leading and trailing white space, as Unicode
  defines it, from a UTF-8 string.  The white-space code points are the six ASCII ones
  (tab, line feed, vertical tab, form feed, carriage return, space), U+0085, U+00A0,
  U+1680, U+2000 to U+200A, U+2028, U+2029, U+202F, U+205F and U+3000; the lists below
  are their UTF-8 encodings.
\<close>

definition asciiSpace :: "char \<Rightarrow> bool" where
  "asciiSpace c = (c = CHR 0x09 \<or> c = CHR 0x0A \<or> c = CHR 0x0B \<or> c = CHR 0x0C \<or>
                   c = CHR 0x0D \<or> c = CHR 0x20)"

definition space2 :: "string list" where
  "space2 = [[CHR 0xC2, CHR 0x85], [CHR 0xC2, CHR 0xA0]]"

definition space3 :: "string list" where
  "space3 = [[CHR 0xE1, CHR 0x9A, CHR 0x80],
             [CHR 0xE2, CHR 0x80, CHR 0x80], [CHR 0xE2, CHR 0x80, CHR 0x81],
             [CHR 0xE2, CHR 0x80, CHR 0x82], [CHR 0xE2, CHR 0x80, CHR 0x83],
             [CHR 0xE2, CHR 0x80, CHR 0x84], [CHR 0xE2, CHR 0x80, CHR 0x85],
             [CHR 0xE2, CHR 0x80, CHR 0x86], [CHR 0xE2, CHR 0x80, CHR 0x87],
             [CHR 0xE2, CHR 0x80, CHR 0x88], [CHR 0xE2, CHR 0x80, CHR 0x89],
             [CHR 0xE2, CHR 0x80, CHR 0x8A], [CHR 0xE2, CHR 0x80, CHR 0xA8],
             [CHR 0xE2, CHR 0x80, CHR 0xA9], [CHR 0xE2, CHR 0x80, CHR 0xAF],
             [CHR 0xE2, CHR 0x81, CHR 0x9F], [CHR 0xE3, CHR 0x80, CHR 0x80]]"

text \<open>
  The number of bytes of the white-space rune a string starts with (0 when it starts
  with none), and of the white-space rune it ends with.
\<close>

definition leadingSpace :: "string \<Rightarrow> nat" where
  "leadingSpace s =
     (if s = [] then 0
      else if asciiSpace (hd s) then 1
      else if List.member space2 (take 2 s) then 2
      else if List.member space3 (take 3 s) then 3
      else 0)"

definition trailingSpace :: "string \<Rightarrow> nat" where
  "trailingSpace s =
     (if s = [] then 0
      else if asciiSpace (last s) then 1
      else if List.member space2 (drop (length s - 2) s) then 2
      else if List.member space3 (drop (length s - 3) s) then 3
      else 0)"

function TrimLeft :: "string \<Rightarrow> string" where
  "TrimLeft s = (if leadingSpace s = 0 then s else TrimLeft (drop (leadingSpace s) s))"
  by pat_completeness auto
termination
  by (relation "measure length") (auto simp: leadingSpace_def split: if_splits)

function TrimRight :: "string \<Rightarrow> string" where
  "TrimRight s =
     (if trailingSpace s = 0 then s else TrimRight (take (length s - trailingSpace s) s))"
  by pat_completeness auto
termination
  by (relation "measure length") (auto simp: trailingSpace_def split: if_splits)

declare TrimLeft.simps [simp del] TrimRight.simps [simp del]

definition TrimSpace :: "string \<Rightarrow> string" where
  "TrimSpace s = TrimRight (TrimLeft s)"

section \<open>The JSON codec\<close>

text \<open>
  Errors are values.  A Go \<open>error\<close> is either an \<open>*ldap.Error\<close>, which carries the
  result code of the protocol, or an error of any other type.
\<close>

datatype error = LDAPError (ResultCode: nat) | OtherError string

text \<open>
  \<open>encoding/json\<close> is a library of the Go distribution: \<open>json.Marshal\<close> on a
  \<open>[]string\<close> and \<open>json.Unmarshal\<close> into a \<open>[]string\<close> are parameters of the
  model, and a theorem that depends on what they compute says so in a hypothesis.
\<close>

record json =
  Marshal :: "string list \<Rightarrow> error + string"
  Unmarshal :: "string \<Rightarrow> error + string list"

text \<open>
  \<open>maybeJSONStringToArray\<close> (the spec's \<open>parseValue\<close>): a string that starts with
  \<open>[\<close> after trimming is decoded as a JSON array of strings; when it does not start
  with \<open>[\<close>, or the decoding fails, the result is the string itself as the only
  element.
\<close>

definition maybeJSONStringToArray :: "'a json_scheme \<Rightarrow> string \<Rightarrow> string list" where
  "maybeJSONStringToArray J i =
     (if HasPrefix (TrimSpace i) ''[''
      then (case Unmarshal J i of
              Inl err \<Rightarrow> [i]
            | Inr ret \<Rightarrow> ret)
      else [i])"

section \<open>Modify requests\<close>

datatype Operation = AddAttribute | DeleteAttribute | ReplaceAttribute

datatype PartialAttribute = PartialAttribute (Type: string) (Vals: "string list")

datatype Change = Change (Operation: Operation) (Modification: PartialAttribute)

record ModifyRequest =
  DN :: string
  Changes :: "Change list"

definition NewModifyRequest :: "string \<Rightarrow> ModifyRequest" where
  "NewModifyRequest d = \<lparr>DN = d, Changes = []\<rparr>"

definition appendChange :: "ModifyRequest \<Rightarrow> Operation \<Rightarrow> string \<Rightarrow> string list \<Rightarrow> ModifyRequest" where
  "appendChange req operation attrType attrVals =
     req\<lparr>Changes := Changes req @ [Change operation (PartialAttribute attrType attrVals)]\<rparr>"

definition ModifyRequest_Add :: "ModifyRequest \<Rightarrow> string \<Rightarrow> string list \<Rightarrow> ModifyRequest" where
  "ModifyRequest_Add req attrType attrVals = appendChange req AddAttribute attrType attrVals"

definition ModifyRequest_Delete :: "ModifyRequest \<Rightarrow> string \<Rightarrow> string list \<Rightarrow> ModifyRequest" where
  "ModifyRequest_Delete req attrType attrVals = appendChange req DeleteAttribute attrType attrVals"

definition ModifyRequest_Replace :: "ModifyRequest \<Rightarrow> string \<Rightarrow> string list \<Rightarrow> ModifyRequest" where
  "ModifyRequest_Replace req attrType attrVals = appendChange req ReplaceAttribute attrType attrVals"

text \<open>The spec's attribute deltas, as the changes of a modify request.\<close>

abbreviation Remove :: "string \<Rightarrow> Change" where
  "Remove name \<equiv> Change DeleteAttribute (PartialAttribute name [])"

abbreviation Add :: "string \<Rightarrow> string list \<Rightarrow> Change" where
  "Add name vs \<equiv> Change AddAttribute (PartialAttribute name vs)"

abbreviation Replace :: "string \<Rightarrow> string list \<Rightarrow> Change" where
  "Replace name vs \<equiv> Change ReplaceAttribute (PartialAttribute name vs)"

section \<open>The map-shaped attributes (src/provider/resource\_ldap\_object.go)\<close>

text \<open>
  A Go \<open>map[string]T\<close> is an association list with distinct keys; the order of the
  list is the order in which \<open>range\<close> visits the map, which Go leaves unspecified.
  \<open>m[k]\<close> with the \<open>ok\<close> flag is \<open>map_of m k\<close>, and \<open>m[k] = v\<close> is
  \<open>AList.update k v m\<close>.
\<close>

type_synonym 'v gomap = "(string \<times> 'v) list"

definition wf_map :: "'v gomap \<Rightarrow> bool" where
  "wf_map m = distinct (map fst m)"

text \<open>The three loops of \<open>computeAndAddDeltas\<close>, each a fold over the map it ranges over.\<close>

fun deleteLoop :: "ModifyRequest \<Rightarrow> string gomap \<Rightarrow> string gomap \<Rightarrow> ModifyRequest" where
  "deleteLoop modify [] newAttrs = modify"
| "deleteLoop modify ((oldName, _) # rest) newAttrs =
     deleteLoop (case map_of newAttrs oldName of
                   None \<Rightarrow> ModifyRequest_Delete modify oldName []
                 | Some _ \<Rightarrow> modify) rest newAttrs"

fun addLoop :: "'a json_scheme \<Rightarrow> ModifyRequest \<Rightarrow> string gomap \<Rightarrow> string gomap \<Rightarrow> ModifyRequest" where
  "addLoop J modify oldAttrs [] = modify"
| "addLoop J modify oldAttrs ((newName, v) # rest) =
     addLoop J (case map_of oldAttrs newName of
                  None \<Rightarrow> ModifyRequest_Add modify newName (maybeJSONStringToArray J v)
                | Some _ \<Rightarrow> modify) oldAttrs rest"

fun replaceLoop :: "'a json_scheme \<Rightarrow> ModifyRequest \<Rightarrow> string gomap \<Rightarrow> string gomap \<Rightarrow> ModifyRequest" where
  "replaceLoop J modify oldAttrs [] = modify"
| "replaceLoop J modify oldAttrs ((name, newValue) # rest) =
     replaceLoop J (case map_of oldAttrs name of
                      Some oldValue \<Rightarrow>
                        if oldValue \<noteq> newValue
                        then ModifyRequest_Replace modify name (maybeJSONStringToArray J newValue)
                        else modify
                    | None \<Rightarrow> modify) oldAttrs rest"

definition computeAndAddDeltas ::
  "'a json_scheme \<Rightarrow> ModifyRequest \<Rightarrow> string gomap \<Rightarrow> string gomap \<Rightarrow> ModifyRequest \<times> error option" where
  "computeAndAddDeltas J modify oldAttrs newAttrs =
     (let modify = deleteLoop modify oldAttrs newAttrs;
          modify = addLoop J modify oldAttrs newAttrs;
          modify = replaceLoop J modify oldAttrs newAttrs
      in (modify, None))"

text \<open>The spec's \<open>diff\<close>: the deltas the function adds to a fresh request.\<close>

definition diff :: "'a json_scheme \<Rightarrow> string gomap \<Rightarrow> string gomap \<Rightarrow> Change list" where
  "diff J oldAttrs newAttrs = Changes (fst (computeAndAddDeltas J (NewModifyRequest []) oldAttrs newAttrs))"

section \<open>The directory client and the resource\<close>

text \<open>
  What the code reads of a search result: the entries, each with its attributes in the
  order the server sent them.
\<close>

datatype EntryAttribute = EntryAttribute (Name: string) (Values: "string list")

datatype Entry = Entry (EntryDN: string) (Attributes: "EntryAttribute list")

text \<open>
  \<open>GetAttributeValues\<close> returns the values of the first attribute with the given
  name, and no value when there is none.
\<close>

fun attributeValues :: "EntryAttribute list \<Rightarrow> string \<Rightarrow> string list" where
  "attributeValues [] attribute = []"
| "attributeValues (a # rest) attribute =
     (if Name a = attribute then Values a else attributeValues rest attribute)"

definition GetAttributeValues :: "Entry \<Rightarrow> string \<Rightarrow> string list" where
  "GetAttributeValues e attribute = attributeValues (Attributes e) attribute"

text \<open>
  The connection \<open>*ldap.Conn\<close> is a parameter: its calls are functions of the state
  \<open>'srv\<close> of the server, so that a search after a modification sees the modified
  directory.  \<open>Search\<close> takes the base DN of the request (the scope is the base object
  and the filter matches every entry) and returns the entries or an error; \<open>Modify\<close>
  and \<open>Del\<close> return the new state of the server and \<open>nil\<close> or an error.
\<close>

record 'srv Conn =
  Search :: "'srv \<Rightarrow> string \<Rightarrow> error + Entry list"
  Modify :: "'srv \<Rightarrow> ModifyRequest \<Rightarrow> 'srv \<times> error option"
  Del :: "'srv \<Rightarrow> string \<Rightarrow> 'srv \<times> error option"

text \<open>
  \<open>*schema.ResourceData\<close>, as far as the code uses it: the id (\<open>d.Id()\<close>,
  \<open>d.SetId\<close>), the fields \<open>d.Get\<close> and \<open>d.Set\<close> work on, and the prior values
  that \<open>d.GetChange\<close> returns beside the current ones.  The type \<open>'a\<close> is the type
  of the field \<open>attributes\<close>: a map of strings in src/provider, a set of single-entry
  maps in the set-shaped variant (whose schema has no \<open>skip_attributes\<close>, and whose
  functions never read it).
\<close>

record 'a ResourceData =
  ID :: string
  dn :: string
  object_classes :: "string list"
  attributes :: 'a
  skip_attributes :: "string list"
  prior_object_classes :: "string list"
  prior_attributes :: 'a

definition SetId :: "'a ResourceData \<Rightarrow> string \<Rightarrow> 'a ResourceData" where
  "SetId d v = d\<lparr>ID := v\<rparr>"

fun stringListContains :: "string \<Rightarrow> string list \<Rightarrow> bool" where
  "stringListContains needle [] = False"
| "stringListContains needle (h # haystack) =
     (if needle = h then True else stringListContains needle haystack)"

text \<open>\<open>fmt.Sprintf("%s=%s", name, value)\<close>.\<close>

definition rdnString :: "string \<Rightarrow> string \<Rightarrow> string" where
  "rdnString name v = name @ ''='' @ v"

text \<open>
  The loop of \<open>readLDAPObject\<close> over the attributes of the entry.  An attribute named
  in \<open>attributesToSkip\<close> is skipped; so is one with a single value when
  \<open>name=value\<close> is a prefix of the DN; a single value is stored as it is, and any
  other list of values as its JSON encoding, whose failure ends the read.
\<close>

fun readAttributes ::
  "'j json_scheme \<Rightarrow> string \<Rightarrow> string list \<Rightarrow> string gomap \<Rightarrow> EntryAttribute list \<Rightarrow> error + string gomap" where
  "readAttributes J base attributesToSkip attrs [] = Inr attrs"
| "readAttributes J base attributesToSkip attrs (attribute # rest) =
     (if stringListContains (Name attribute) attributesToSkip
      then readAttributes J base attributesToSkip attrs rest
      else if length (Values attribute) = 1 \<and>
              HasPrefix base (rdnString (Name attribute) (Values attribute ! 0))
      then readAttributes J base attributesToSkip attrs rest
      else if length (Values attribute) = 1
      then readAttributes J base attributesToSkip
             (AList.update (Name attribute) (Values attribute ! 0) attrs) rest
      else (case Marshal J (Values attribute) of
              Inl err \<Rightarrow> Inl err
            | Inr val \<Rightarrow>
                readAttributes J base attributesToSkip
                  (AList.update (Name attribute) val attrs) rest))"

text \<open>
  \<open>readLDAPObject\<close> returns the resource data and \<open>nil\<close> or an error; the result
  \<open>None\<close> is the panic of \<open>Entries[0]\<close> on a result without entries.  \<open>d.Set\<close>
  is given a value of the type the schema declares for the field, and is the update of
  the field.
\<close>

definition readLDAPObject ::
  "'j json_scheme \<Rightarrow> ('srv, 'c) Conn_scheme \<Rightarrow> 'srv \<Rightarrow> string gomap ResourceData \<Rightarrow> bool \<Rightarrow>
   (string gomap ResourceData \<times> error option) option" where
  "readLDAPObject J client srv d updateState =
     (case Search client srv (dn d) of
        Inl err \<Rightarrow>
          (case err of
             LDAPError code \<Rightarrow>
               if code = 32 \<and> updateState then Some (SetId d [], None) else Some (d, Some err)
           | OtherError _ \<Rightarrow> Some (d, Some err))
      | Inr Entries \<Rightarrow>
          (case Entries of
             [] \<Rightarrow> None
           | e # _ \<Rightarrow>
               let d = SetId d (dn d);
                   d = d\<lparr>object_classes := GetAttributeValues e ''objectClass''\<rparr>;
                   attributesToSkip = [''objectClass''] @ skip_attributes d
               in (case readAttributes J (dn d) attributesToSkip [] (Attributes e) of
                     Inl err \<Rightarrow> Some (d, Some err)
                   | Inr attrs \<Rightarrow> Some (d\<lparr>attributes := attrs\<rparr>, None))))"

definition resourceLDAPObjectRead ::
  "'j json_scheme \<Rightarrow> ('srv, 'c) Conn_scheme \<Rightarrow> 'srv \<Rightarrow> string gomap ResourceData \<Rightarrow>
   (string gomap ResourceData \<times> error option) option" where
  "resourceLDAPObjectRead J client srv d = readLDAPObject J client srv d True"

text \<open>
  \<open>resourceLDAPObjectUpdate\<close> and \<open>resourceLDAPObjectDelete\<close> also return the state
  the server is left in.  \<open>d.HasChange(key)\<close> holds when the prior and the current
  value of the field differ, as sets for a set and as maps for a map, whatever the order
  of the elements.  \<open>updateRequest\<close> is the first half of
  \<open>resourceLDAPObjectUpdate\<close>: the modify request it builds, and the error of
  \<open>computeAndAddDeltas\<close>; the second half sends the request and reads the object
  again.
\<close>

definition updateRequest ::
  "'j json_scheme \<Rightarrow> string gomap ResourceData \<Rightarrow> ModifyRequest \<times> error option" where
  "updateRequest J d =
     (let modify = NewModifyRequest (ID d);
          modify = (if set (prior_object_classes d) \<noteq> set (object_classes d)
                    then ModifyRequest_Replace modify ''objectClass'' (object_classes d)
                    else modify)
      in if set (prior_attributes d) \<noteq> set (attributes d)
         then computeAndAddDeltas J modify (prior_attributes d) (attributes d)
         else (modify, None))"

definition resourceLDAPObjectUpdate ::
  "'j json_scheme \<Rightarrow> ('srv, 'c) Conn_scheme \<Rightarrow> 'srv \<Rightarrow> string gomap ResourceData \<Rightarrow>
   ('srv \<times> string gomap ResourceData \<times> error option) option" where
  "resourceLDAPObjectUpdate J client srv d =
     (case updateRequest J d of
        (modify, Some err) \<Rightarrow> Some (srv, d, Some err)
      | (modify, None) \<Rightarrow>
          (case Modify client srv modify of
             (srv', Some err) \<Rightarrow> Some (srv', d, Some err)
           | (srv', None) \<Rightarrow>
               map_option (\<lambda>(d', r). (srv', d', r)) (resourceLDAPObjectRead J client srv' d)))"

definition resourceLDAPObjectDelete ::
  "('srv, 'c) Conn_scheme \<Rightarrow> 'srv \<Rightarrow> 'a ResourceData \<Rightarrow> 'srv \<times> error option" where
  "resourceLDAPObjectDelete client srv d = Del client srv (dn d)"

section \<open>The set-shaped attributes (src/unnamed/part\_000)\<close>

text \<open>
  In this variant the field \<open>attributes\<close> is a \<open>*schema.Set\<close> of maps; the schema
  gives each map exactly one entry, so an element is a pair of a name and a value and
  every loop over the entries of an element runs once.
\<close>

type_synonym attribute = "string \<times> string"

text \<open>
  \<open>crc32.ChecksumIEEE\<close>: the CRC-32 of the bytes with the reflected polynomial
  \<open>0xEDB88320\<close>, from the register of all ones, complemented at the end.
\<close>

definition crcShift :: "32 word \<Rightarrow> 32 word" where
  "crcShift c = (if bit c 0 then drop_bit 1 c XOR 0xEDB88320 else drop_bit 1 c)"

definition crcUpdate :: "32 word \<Rightarrow> char \<Rightarrow> 32 word" where
  "crcUpdate c b =
     crcShift (crcShift (crcShift (crcShift (crcShift (crcShift (crcShift (crcShift
       (c XOR of_char b))))))))"

definition ChecksumIEEE :: "string \<Rightarrow> 32 word" where
  "ChecksumIEEE s = NOT (foldl crcUpdate 0xFFFFFFFF s)"

text \<open>
  \<open>attributeHash\<close> writes \<open>map {\<close>, then \<open>%q := %q;\<close> with the name and the
  value of the entry, then \<open>}\<close>, and takes the checksum of the text as an \<open>int\<close>.
  The verb \<open>%q\<close> of \<open>fmt\<close> (the quoting of \<open>strconv.Quote\<close>) is the parameter
  \<open>quote\<close>.  An \<open>int\<close> has 64 bits, so the checksum, a \<open>uint32\<close>, keeps its
  value; the two tests on the sign are those of the source.
\<close>

definition attributeHash :: "(string \<Rightarrow> string) \<Rightarrow> attribute \<Rightarrow> int" where
  "attributeHash quote item =
     (let buffer = ''map {'' @ (quote (fst item) @ '' := '' @ quote (snd item) @ '';'') @ ''}'';
          h = int (unat (ChecksumIEEE buffer))
      in if h \<ge> 0 then h else if - h \<ge> 0 then - h else 0)"

text \<open>
  \<open>schema.Set\<close> is a type of the plugin SDK: a hash function \<open>F\<close> and a map from
  hash codes to elements.  An element is found by its hash code alone: \<open>Add\<close> keeps
  the element a code already has and drops the new one, \<open>Difference\<close> keeps the
  elements whose code the other set lacks, and \<open>Intersection\<close> those whose code the
  other set has.  The code of an element is \<open>F\<close> of it, negated when it is negative
  (the key of the map is this number in decimal).

  The model of a set is the list of its elements in the order of \<open>List()\<close>, with the
  hash function \<open>F\<close> as a parameter of the operations; in part\_000 every set is made
  with \<open>attributeHash\<close>.  \<open>List()\<close> sorts the elements by their keys; the model
  leaves the place of a new element open: \<open>Set_Add\<close> puts it last, and no theorem
  depends on the place.
\<close>

type_synonym schema_Set = "attribute list"

definition hashcode :: "(attribute \<Rightarrow> int) \<Rightarrow> attribute \<Rightarrow> int" where
  "hashcode F item = (let code = F item in if code < 0 then - code else code)"

definition Set_List :: "schema_Set \<Rightarrow> attribute list" where
  "Set_List s = s"

definition Set_Add :: "(attribute \<Rightarrow> int) \<Rightarrow> schema_Set \<Rightarrow> attribute \<Rightarrow> schema_Set" where
  "Set_Add F s item = (if hashcode F item \<in> hashcode F ` set s then s else s @ [item])"

definition Set_Difference :: "(attribute \<Rightarrow> int) \<Rightarrow> schema_Set \<Rightarrow> schema_Set \<Rightarrow> schema_Set" where
  "Set_Difference F s other = filter (\<lambda>item. hashcode F item \<notin> hashcode F ` set other) s"

definition Set_Intersection :: "(attribute \<Rightarrow> int) \<Rightarrow> schema_Set \<Rightarrow> schema_Set \<Rightarrow> schema_Set" where
  "Set_Intersection F s other = filter (\<lambda>item. hashcode F item \<in> hashcode F ` set other) s"

text \<open>
  Modelled from the spec: the package \<open>util\<close> that part\_000 imports is not among the
  sources.  Its \<open>Set\<close> holds the names of the spec's projections \<open>removedNames\<close>,
  \<open>addedNames\<close> and \<open>keptNames\<close>: a set of strings made by \<open>NewSet\<close>, with
  \<open>Add\<close>, \<open>Contains\<close> and \<open>List\<close>.  The model is the list of the names in the
  order they were added, each once.
\<close>

type_synonym util_Set = "string list"

definition NewSet :: util_Set where
  "NewSet = []"

definition util_Add :: "util_Set \<Rightarrow> string \<Rightarrow> util_Set" where
  "util_Add s k = (if k \<in> set s then s else s @ [k])"

definition util_Contains :: "util_Set \<Rightarrow> string \<Rightarrow> bool" where
  "util_Contains s k = (k \<in> set s)"

definition util_List :: "util_Set \<Rightarrow> string list" where
  "util_List s = s"

text \<open>The loop that adds the name of every element of a list to a set of names.\<close>

fun addNames :: "util_Set \<Rightarrow> attribute list \<Rightarrow> util_Set" where
  "addNames ks [] = ks"
| "addNames ks ((k, _) # rest) = addNames (util_Add ks k) rest"

text \<open>The loop that collects the values under the name \<open>k\<close> from the new set.\<close>

fun collectValues :: "string \<Rightarrow> string list \<Rightarrow> attribute list \<Rightarrow> string list" where
  "collectValues k values [] = values"
| "collectValues k values ((mk, mv) # rest) =
     collectValues k (if k = mk then values @ [mv] else values) rest"

fun removedLoop ::
  "util_Set \<Rightarrow> util_Set \<Rightarrow> ModifyRequest \<times> util_Set \<Rightarrow> string list \<Rightarrow> ModifyRequest \<times> util_Set" where
  "removedLoop ak kk (modify, ck) [] = (modify, ck)"
| "removedLoop ak kk (modify, ck) (k # rest) =
     removedLoop ak kk
       (if \<not> util_Contains ak k \<and> \<not> util_Contains kk k
        then (ModifyRequest_Delete modify k [], ck)
        else (modify, util_Add ck k)) rest"

fun addedLoop ::
  "util_Set \<Rightarrow> util_Set \<Rightarrow> schema_Set \<Rightarrow> ModifyRequest \<times> util_Set \<Rightarrow> string list \<Rightarrow>
   ModifyRequest \<times> util_Set" where
  "addedLoop rk kk ns (modify, ck) [] = (modify, ck)"
| "addedLoop rk kk ns (modify, ck) (k # rest) =
     addedLoop rk kk ns
       (if \<not> util_Contains rk k \<and> \<not> util_Contains kk k
        then (ModifyRequest_Add modify k (collectValues k [] (Set_List ns)), ck)
        else (modify, util_Add ck k)) rest"

fun changedLoop :: "schema_Set \<Rightarrow> ModifyRequest \<Rightarrow> string list \<Rightarrow> ModifyRequest" where
  "changedLoop ns modify [] = modify"
| "changedLoop ns modify (k # rest) =
     changedLoop ns (ModifyRequest_Replace modify k (collectValues k [] (Set_List ns))) rest"

definition computeAndAddDeltas_set ::
  "(attribute \<Rightarrow> int) \<Rightarrow> ModifyRequest \<Rightarrow> schema_Set \<Rightarrow> schema_Set \<Rightarrow>
   ModifyRequest \<times> error option" where
  "computeAndAddDeltas_set F modify os ns =
     (let rk = addNames NewSet (Set_List (Set_Difference F os ns));
          ak = addNames NewSet (Set_List (Set_Difference F ns os));
          kk = addNames NewSet (Set_List (Set_Intersection F ns os));
          ck = NewSet;
          (modify, ck) = removedLoop ak kk (modify, ck) (util_List rk);
          (modify, ck) = addedLoop rk kk ns (modify, ck) (util_List ak);
          modify = changedLoop ns modify (util_List ck)
      in (modify, None))"

definition diff_set :: "(attribute \<Rightarrow> int) \<Rightarrow> schema_Set \<Rightarrow> schema_Set \<Rightarrow> Change list" where
  "diff_set F os ns = Changes (fst (computeAndAddDeltas_set F (NewModifyRequest []) os ns))"





text \<open>
  The loops of the set-shaped \<open>readLDAPObject\<close>, on a set with the hash function
  \<open>F\<close>; the function makes the set with \<open>attributeHash\<close>.
\<close>

fun addValues :: "(attribute \<Rightarrow> int) \<Rightarrow> schema_Set \<Rightarrow> string \<Rightarrow> string list \<Rightarrow> schema_Set" where
  "addValues F s name [] = s"
| "addValues F s name (v # rest) = addValues F (Set_Add F s (name, v)) name rest"

fun readAttributes_set ::
  "(attribute \<Rightarrow> int) \<Rightarrow> string \<Rightarrow> schema_Set \<Rightarrow> EntryAttribute list \<Rightarrow> schema_Set" where
  "readAttributes_set F base s [] = s"
| "readAttributes_set F base s (attribute # rest) =
     (if Name attribute = ''objectClass''
      then readAttributes_set F base s rest
      else if length (Values attribute) = 1 \<and>
              HasPrefix base (rdnString (Name attribute) (Values attribute ! 0))
      then readAttributes_set F base s rest
      else readAttributes_set F base (addValues F s (Name attribute) (Values attribute)) rest)"

definition readLDAPObject_set ::
  "(string \<Rightarrow> string) \<Rightarrow> ('srv, 'c) Conn_scheme \<Rightarrow> 'srv \<Rightarrow> schema_Set ResourceData \<Rightarrow> bool \<Rightarrow>
   (schema_Set ResourceData \<times> error option) option" where
  "readLDAPObject_set quote client srv d updateState =
     (case Search client srv (dn d) of
        Inl err \<Rightarrow>
          (case err of
             LDAPError code \<Rightarrow>
               if code = 32 \<and> updateState then Some (SetId d [], None) else Some (d, Some err)
           | OtherError _ \<Rightarrow> Some (d, Some err))
      | Inr Entries \<Rightarrow>
          (case Entries of
             [] \<Rightarrow> None
           | e # _ \<Rightarrow>
               let d = SetId d (dn d);
                   d = d\<lparr>object_classes := GetAttributeValues e ''objectClass''\<rparr>;
                   s = readAttributes_set (attributeHash quote) (dn d) [] (Attributes e)
               in Some (d\<lparr>attributes := s\<rparr>, None)))"

definition resourceLDAPObjectRead_set ::
  "(string \<Rightarrow> string) \<Rightarrow> ('srv, 'c) Conn_scheme \<Rightarrow> 'srv \<Rightarrow> schema_Set ResourceData \<Rightarrow>
   (schema_Set ResourceData \<times> error option) option" where
  "resourceLDAPObjectRead_set quote client srv d = readLDAPObject_set quote client srv d True"

definition updateRequest_set ::
  "(string \<Rightarrow> string) \<Rightarrow> schema_Set ResourceData \<Rightarrow> ModifyRequest \<times> error option" where
  "updateRequest_set quote d =
     (let modify = NewModifyRequest (ID d);
          modify = (if set (prior_object_classes d) \<noteq> set (object_classes d)
                    then ModifyRequest_Replace modify ''objectClass'' (object_classes d)
                    else modify)
      in if set (prior_attributes d) \<noteq> set (attributes d)
         then computeAndAddDeltas_set (attributeHash quote) modify
                (prior_attributes d) (attributes d)
         else (modify, None))"

definition resourceLDAPObjectUpdate_set ::
  "(string \<Rightarrow> string) \<Rightarrow> ('srv, 'c) Conn_scheme \<Rightarrow> 'srv \<Rightarrow> schema_Set ResourceData \<Rightarrow>
   ('srv \<times> schema_Set ResourceData \<times> error option) option" where
  "resourceLDAPObjectUpdate_set quote client srv d =
     (case updateRequest_set quote d of
        (modify, Some err) \<Rightarrow> Some (srv, d, Some err)
      | (modify, None) \<Rightarrow>
          (case Modify client srv modify of
             (srv', Some err) \<Rightarrow> Some (srv', d, Some err)
           | (srv', None) \<Rightarrow>
               map_option (\<lambda>(d', r). (srv', d', r))
                 (resourceLDAPObjectRead_set quote client srv' d)))"

section \<open>Notions of the specification\<close>

text \<open>The deltas of a sequence that are about the attribute \<open>k\<close>, in their order.\<close>

definition deltasFor :: "string \<Rightarrow> Change list \<Rightarrow> Change list" where
  "deltasFor k ds = filter (\<lambda>c. Type (Modification c) = k) ds"


text \<open>
  The test of the read loops for the RDN: the attribute has one value, and
  \<open>name=value\<close> is a prefix of the DN.
\<close>

definition rdnMatch :: "string \<Rightarrow> EntryAttribute \<Rightarrow> bool" where
  "rdnMatch base a =
     (length (Values a) = 1 \<and> HasPrefix base (rdnString (Name a) (Values a ! 0)))"

text \<open>
  The entries that the set-shaped read adds for a list of attributes: one for every
  value of every attribute that is neither \<open>objectClass\<close> nor a match of the RDN
  test.
\<close>

definition setEntries :: "string \<Rightarrow> EntryAttribute list \<Rightarrow> attribute set" where
  "setEntries base attrs =
     {(Name a, v) |a v. a \<in> set attrs \<and> Name a \<noteq> ''objectClass'' \<and>
        \<not> rdnMatch base a \<and> v \<in> set (Values a)}"

text \<open>
  The RDN of the glossary, the leading \<open>name=value\<close> component of a DN: the DN up
  to its first comma that no backslash escapes.
\<close>

fun leadingRDN :: "string \<Rightarrow> string" where
  "leadingRDN [] = []"
| "leadingRDN (c # cs) =
     (if c = CHR '','' then []
      else if c = CHR 0x5C then (case cs of [] \<Rightarrow> [c] | e # rest \<Rightarrow> c # e # leadingRDN rest)
      else c # leadingRDN cs)"

text \<open>
  The string the map-shaped read stores for an attribute: the value of a single-valued
  attribute, and the JSON encoding of any other list of values.
\<close>

definition stored :: "'j json_scheme \<Rightarrow> EntryAttribute \<Rightarrow> string \<Rightarrow> bool" where
  "stored J a s =
     (if length (Values a) = 1 then s = Values a ! 0 else Marshal J (Values a) = Inr s)"

text \<open>
  A codec to evaluate the theorems at concrete inputs: it is \<open>encoding/json\<close> on the
  two arrays \<open>[]\<close> and \<open>["a","b"]\<close>, and an error elsewhere.  The examples use it
  only on these two arrays and on strings that are not JSON.
\<close>

definition sampleJSON :: json where
  "sampleJSON =
     \<lparr>Marshal = (\<lambda>vs. if vs = [] then Inr ''[]''
                       else if vs = [''a'', ''b''] then Inr ''[\"a\",\"b\"]''
                       else Inl (OtherError ''outside the sample'')),
      Unmarshal = (\<lambda>s. if s = ''[]'' then Inr []
                         else if s = ''[\"a\",\"b\"]'' then Inr [''a'', ''b'']
                         else Inl (OtherError ''invalid character''))\<rparr>"

text \<open>
  The quoting to evaluate \<open>attributeHash\<close> with: it is \<open>strconv.Quote\<close> on the
  strings of printable ASCII characters, which it puts between double quotes, with a
  backslash before every double quote and backslash.  The examples use it on such
  strings only.
\<close>

fun escapeASCII :: "string \<Rightarrow> string" where
  "escapeASCII [] = []"
| "escapeASCII (c # cs) =
     (if c = CHR 0x22 \<or> c = CHR 0x5C then CHR 0x5C # c # escapeASCII cs
      else c # escapeASCII cs)"

definition asciiQuote :: "string \<Rightarrow> string" where
  "asciiQuote s = CHR 0x22 # escapeASCII s @ [CHR 0x22]"

text \<open>
  Clients and resource data to evaluate the theorems at: a client whose every call
  fails with the given result code, a client of a directory that holds one entry and
  accepts every modification, and the data of a resource with given prior and current
  attributes.
\<close>

definition failingClient :: "nat \<Rightarrow> unit Conn" where
  "failingClient code =
     \<lparr>Search = (\<lambda>srv base. Inl (LDAPError code)),
      Modify = (\<lambda>srv req. (srv, Some (LDAPError code))),
      Del = (\<lambda>srv base. (srv, Some (LDAPError code)))\<rparr>"

definition entryClient :: "Entry \<Rightarrow> unit Conn" where
  "entryClient e =
     \<lparr>Search = (\<lambda>srv base. Inr [e]),
      Modify = (\<lambda>srv req. (srv, None)),
      Del = (\<lambda>srv base. (srv, None))\<rparr>"

definition resourceData :: "string \<Rightarrow> 'a \<Rightarrow> 'a \<Rightarrow> 'a ResourceData" where
  "resourceData base prior current =
     \<lparr>ID = base, dn = base, object_classes = [''person''], attributes = current,
      skip_attributes = [], prior_object_classes = [''person''], prior_attributes = prior\<rparr>"

text \<open>
  Three entries under the DN \<open>cn=foobar,dc=example\<close>: one whose \<open>cn\<close> is the
  value of the RDN, one whose only \<open>cn\<close> is \<open>foo\<close>, and one with a single value
  that reads as a JSON array; and the data of a resource with this DN.
\<close>

definition exampleEntry :: Entry where
  "exampleEntry =
     Entry ''cn=foobar,dc=example''
       [EntryAttribute ''objectClass'' [''top'', ''person''],
        EntryAttribute ''cn'' [''foobar''],
        EntryAttribute ''mail'' [''a'', ''b''],
        EntryAttribute ''sn'' [''w'']]"

definition prefixEntry :: Entry where
  "prefixEntry =
     Entry ''cn=foobar,dc=example''
       [EntryAttribute ''objectClass'' [''top'', ''person''],
        EntryAttribute ''cn'' [''foo''],
        EntryAttribute ''sn'' [''bar'']]"

definition arrayEntry :: Entry where
  "arrayEntry =
     Entry ''cn=foobar,dc=example''
       [EntryAttribute ''objectClass'' [''top'', ''person''],
        EntryAttribute ''cn'' [''foobar''],
        EntryAttribute ''description'' [''[\"a\",\"b\"]'']]"

definition exampleData :: "schema_Set ResourceData" where
  "exampleData = resourceData ''cn=foobar,dc=example'' [] []"

section \<open>Trimming and the bracket test\<close>

lemma HasPrefix_bracket: "HasPrefix s ''['' = (s \<noteq> [] \<and> hd s = CHR ''['')"
  by (cases s) (auto simp: HasPrefix_def)

lemma trailingSpace_less:
  assumes "s \<noteq> []" and "hd s = CHR ''[''"
  shows "trailingSpace s < length s"
proof -
  have ns: "\<not> asciiSpace (CHR ''['')" by (simp add: asciiSpace_def)
  have m2: "\<And>t. List.member space2 t \<Longrightarrow> length t = 2 \<and> hd t \<noteq> CHR ''[''"
    by (auto simp: space2_def)
  have m3: "\<And>t. List.member space3 t \<Longrightarrow> length t = 3 \<and> hd t \<noteq> CHR ''[''"
    by (auto simp: space3_def)
  show ?thesis
  proof (cases "length s \<le> 3")
    case False
    then show ?thesis by (auto simp: trailingSpace_def)
  next
    case True
    have one: "asciiSpace (last s) \<Longrightarrow> 1 < length s"
      using assms ns by (cases s) (auto split: if_splits)
    have two: "List.member space2 (drop (length s - 2) s) \<Longrightarrow> 2 < length s"
    proof (rule ccontr)
      assume a: "List.member space2 (drop (length s - 2) s)" and "\<not> 2 < length s"
      then have "drop (length s - 2) s = s" by simp
      with a m2 [of s] assms show False by simp
    qed
    have three: "List.member space3 (drop (length s - 3) s) \<Longrightarrow> 3 < length s"
    proof (rule ccontr)
      assume a: "List.member space3 (drop (length s - 3) s)" and "\<not> 3 < length s"
      then have "drop (length s - 3) s = s" by simp
      with a m3 [of s] assms show False by simp
    qed
    from one two three assms show ?thesis
      by (auto simp: trailingSpace_def)
  qed
qed

lemma TrimRight_stop: "trailingSpace s = 0 \<Longrightarrow> TrimRight s = s"
  by (subst TrimRight.simps) simp

lemma TrimRight_step:
  "trailingSpace s \<noteq> 0 \<Longrightarrow> TrimRight s = TrimRight (take (length s - trailingSpace s) s)"
  by (subst TrimRight.simps) simp

lemma TrimRight_bracket:
  "s \<noteq> [] \<Longrightarrow> hd s = CHR ''['' \<Longrightarrow> TrimRight s \<noteq> [] \<and> hd (TrimRight s) = CHR ''[''"
proof (induction s rule: TrimRight.induct)
  case (1 s)
  show ?case
  proof (cases "trailingSpace s = 0")
    case True
    with 1 show ?thesis by (simp add: TrimRight_stop)
  next
    case False
    let ?t = "take (length s - trailingSpace s) s"
    from trailingSpace_less [OF "1.prems"] have "0 < length s - trailingSpace s" by simp
    then have "?t \<noteq> []" and "hd ?t = CHR ''[''" using "1.prems" by (auto simp: hd_take)
    then have "TrimRight ?t \<noteq> [] \<and> hd (TrimRight ?t) = CHR ''[''"
      by (rule "1.IH" [OF False])
    then show ?thesis by (simp add: TrimRight_step [OF False])
  qed
qed

lemma TrimRight_take: "\<exists>n. TrimRight s = take n s"
proof (induction s rule: TrimRight.induct)
  case (1 s)
  show ?case
  proof (cases "trailingSpace s = 0")
    case True
    then have "TrimRight s = take (length s) s" by (simp add: TrimRight_stop)
    then show ?thesis by blast
  next
    case False
    from "1.IH" [OF False] obtain n where
      "TrimRight (take (length s - trailingSpace s) s) = take n (take (length s - trailingSpace s) s)"
      by blast
    then have "TrimRight s = take (min n (length s - trailingSpace s)) s"
      by (simp add: TrimRight_step [OF False])
    then show ?thesis by blast
  qed
qed

lemma HasPrefix_TrimSpace: "HasPrefix (TrimSpace s) ''['' = HasPrefix (TrimLeft s) ''[''"
proof
  assume "HasPrefix (TrimSpace s) ''[''"
  moreover obtain n where "TrimSpace s = take n (TrimLeft s)"
    using TrimRight_take [of "TrimLeft s"] by (auto simp: TrimSpace_def)
  ultimately show "HasPrefix (TrimLeft s) ''[''"
    by (cases n; cases "TrimLeft s") (auto simp: HasPrefix_bracket)
next
  assume "HasPrefix (TrimLeft s) ''[''"
  then show "HasPrefix (TrimSpace s) ''[''"
    using TrimRight_bracket [of "TrimLeft s"] by (simp add: HasPrefix_bracket TrimSpace_def)
qed

section \<open>The deltas of the map-shaped attributes\<close>

lemma Changes_appendChange [simp]:
  "Changes (appendChange req operation t vs) = Changes req @ [Change operation (PartialAttribute t vs)]"
  by (simp add: appendChange_def)

lemma deleteLoop_Changes:
  "Changes (deleteLoop modify oldAttrs newAttrs) =
     Changes modify @ map Remove (filter (\<lambda>k. map_of newAttrs k = None) (map fst oldAttrs))"
  by (induction modify oldAttrs newAttrs rule: deleteLoop.induct)
     (auto simp: ModifyRequest_Delete_def split: option.splits)

lemma addLoop_Changes:
  "Changes (addLoop J modify oldAttrs newAttrs) =
     Changes modify @
     map (\<lambda>(k, v). Add k (maybeJSONStringToArray J v))
       (filter (\<lambda>(k, v). map_of oldAttrs k = None) newAttrs)"
  by (induction J modify oldAttrs newAttrs rule: addLoop.induct)
     (auto simp: ModifyRequest_Add_def split: option.splits)

lemma replaceLoop_Changes:
  "Changes (replaceLoop J modify oldAttrs newAttrs) =
     Changes modify @
     map (\<lambda>(k, v). Replace k (maybeJSONStringToArray J v))
       (filter (\<lambda>(k, v). \<exists>ov. map_of oldAttrs k = Some ov \<and> ov \<noteq> v) newAttrs)"
  by (induction J modify oldAttrs newAttrs rule: replaceLoop.induct)
     (auto simp: ModifyRequest_Replace_def split: option.splits)

lemma computeAndAddDeltas_Changes:
  "Changes (fst (computeAndAddDeltas J modify oldAttrs newAttrs)) =
     Changes modify @
     map Remove (filter (\<lambda>k. map_of newAttrs k = None) (map fst oldAttrs)) @
     map (\<lambda>(k, v). Add k (maybeJSONStringToArray J v))
       (filter (\<lambda>(k, v). map_of oldAttrs k = None) newAttrs) @
     map (\<lambda>(k, v). Replace k (maybeJSONStringToArray J v))
       (filter (\<lambda>(k, v). \<exists>ov. map_of oldAttrs k = Some ov \<and> ov \<noteq> v) newAttrs)"
  by (simp add: computeAndAddDeltas_def Let_def deleteLoop_Changes addLoop_Changes replaceLoop_Changes)

lemma filter_key_distinct:
  "distinct (map fst al) \<Longrightarrow>
   filter (\<lambda>(k, v). k = a \<and> Q k v) al =
     (case map_of al a of None \<Rightarrow> [] | Some v \<Rightarrow> if Q a v then [(a, v)] else [])"
proof (induction al)
  case Nil
  then show ?case by simp
next
  case (Cons p al)
  obtain k v where p: "p = (k, v)" by (cases p)
  show ?case
  proof (cases "k = a")
    case True
    with Cons.prems p have "a \<notin> fst ` set al" by auto
    then have "\<forall>x\<in>set al. fst x \<noteq> a" by auto
    then have "filter (\<lambda>(k, v). k = a \<and> Q k v) al = []"
      by (auto simp: filter_empty_conv)
    with True p show ?thesis by simp
  next
    case False
    with Cons p show ?thesis by simp
  qed
qed

lemma deltasFor_append [simp]: "deltasFor k (xs @ ys) = deltasFor k xs @ deltasFor k ys"
  by (simp add: deltasFor_def)

lemma deltasFor_removes:
  assumes "distinct (map fst al)"
  shows "deltasFor k (map Remove (filter P (map fst al))) =
           (case map_of al k of None \<Rightarrow> [] | Some v \<Rightarrow> if P k then [Remove k] else [])"
proof -
  have "deltasFor k (map Remove (filter P (map fst al))) =
          map (\<lambda>(k, v). Remove k) (filter (\<lambda>(k', v). k' = k \<and> P k') al)"
    by (induction al) (auto simp: deltasFor_def)
  then show ?thesis
    by (simp add: filter_key_distinct [OF assms] split: option.splits)
qed

lemma deltasFor_mapped:
  assumes "distinct (map fst al)"
  shows "deltasFor k (map (\<lambda>(k, v). Change operation (PartialAttribute k (f v)))
                       (filter (\<lambda>(k, v). Q k v) al)) =
           (case map_of al k of
              None \<Rightarrow> []
            | Some v \<Rightarrow> if Q k v then [Change operation (PartialAttribute k (f v))] else [])"
proof -
  have "deltasFor k (map (\<lambda>(k, v). Change operation (PartialAttribute k (f v)))
                       (filter (\<lambda>(k, v). Q k v) al)) =
          map (\<lambda>(k, v). Change operation (PartialAttribute k (f v)))
            (filter (\<lambda>(k', v). k' = k \<and> Q k' v) al)"
    by (induction al) (auto simp: deltasFor_def)
  then show ?thesis
    by (simp add: filter_key_distinct [OF assms] split: option.splits)
qed

lemma diff_eq:
  "diff J oldAttrs newAttrs =
     map Remove (filter (\<lambda>k. map_of newAttrs k = None) (map fst oldAttrs)) @
     map (\<lambda>(k, v). Add k (maybeJSONStringToArray J v))
       (filter (\<lambda>(k, v). map_of oldAttrs k = None) newAttrs) @
     map (\<lambda>(k, v). Replace k (maybeJSONStringToArray J v))
       (filter (\<lambda>(k, v). \<exists>ov. map_of oldAttrs k = Some ov \<and> ov \<noteq> v) newAttrs)"
  by (simp add: diff_def computeAndAddDeltas_Changes NewModifyRequest_def)

lemma diff_deltasFor:
  assumes "wf_map oldAttrs" and "wf_map newAttrs"
  shows "deltasFor k (diff J oldAttrs newAttrs) =
    (case (map_of oldAttrs k, map_of newAttrs k) of
       (None, None) \<Rightarrow> []
     | (Some ov, None) \<Rightarrow> [Remove k]
     | (None, Some v) \<Rightarrow> [Add k (maybeJSONStringToArray J v)]
     | (Some ov, Some v) \<Rightarrow> if ov \<noteq> v then [Replace k (maybeJSONStringToArray J v)] else [])"
proof -
  have o: "distinct (map fst oldAttrs)" and n: "distinct (map fst newAttrs)"
    using assms by (simp_all add: wf_map_def)
  show ?thesis
    unfolding diff_eq deltasFor_append deltasFor_removes [OF o]
      deltasFor_mapped [OF n, where Q = "\<lambda>k v. map_of oldAttrs k = None"]
      deltasFor_mapped [OF n, where Q = "\<lambda>k v. \<exists>ov. map_of oldAttrs k = Some ov \<and> ov \<noteq> v"]
    by (simp split: option.splits)
qed

section \<open>The deltas of the set-shaped attributes\<close>


lemma set_util_Add [simp]: "set (util_Add s k) = insert k (set s)"
  by (auto simp: util_Add_def)

lemma distinct_util_Add [simp]: "distinct (util_Add s k) = distinct s"
  by (auto simp: util_Add_def)

lemma set_addNames [simp]: "set (addNames ks xs) = set ks \<union> fst ` set xs"
  by (induction ks xs rule: addNames.induct) auto

lemma distinct_addNames [simp]: "distinct (addNames ks xs) = distinct ks"
  by (induction ks xs rule: addNames.induct) auto

lemma set_foldl_util_Add [simp]: "set (foldl util_Add s ks) = set s \<union> set ks"
  by (induction ks arbitrary: s) auto

lemma distinct_foldl_util_Add [simp]: "distinct (foldl util_Add s ks) = distinct s"
  by (induction ks arbitrary: s) auto













section \<open>The claims on the set-shaped deltas\<close>

text \<open>The hash codes of the entries of the examples.\<close>

lemma attributeHash_mail_abc:
  "attributeHash asciiQuote (''mail'', ''a'') = 1840524261"
  "attributeHash asciiQuote (''mail'', ''b'') = 2130805771"
  "attributeHash asciiQuote (''mail'', ''c'') = 3351110510"
  by (simp_all add: attributeHash_def asciiQuote_def ChecksumIEEE_def crcUpdate_def crcShift_def)

lemma attributeHash_cn_sn_mail:
  "attributeHash asciiQuote (''cn'', ''u'') = 652422990"
  "attributeHash asciiQuote (''sn'', ''w'') = 2163345977"
  "attributeHash asciiQuote (''mail'', ''p'') = 2232490783"
  "attributeHash asciiQuote (''mail'', ''q'') = 1034779770"
  by (simp_all add: attributeHash_def asciiQuote_def ChecksumIEEE_def crcUpdate_def crcShift_def)





section \<open>The claims on the map-shaped deltas and on the decoding of a value\<close>

text \<open>
  Claim C3.  In the map-shaped diff of two maps, a name of the old map that the new map
  lacks gets exactly the removal of the attribute; a name of the new map that the old
  map lacks gets exactly the addition of the attribute with the decoded new string; a
  name of both maps whose strings differ gets exactly the replacement of the attribute
  by the decoded new string; a name of both maps with the same string, and a name of
  neither map, gets no delta.  The diff is a sequence of removals, then a sequence of
  additions, then a sequence of replacements.  From \<open>a: 1, b: 2\<close> to
  \<open>b: 2, c: 3\<close> it is the removal of \<open>a\<close> and the addition of \<open>c\<close> with the
  value \<open>3\<close>.
\<close>

theorem map_diff_deltas:
  assumes "wf_map oldAttrs" and "wf_map newAttrs"
  shows "(map_of oldAttrs k \<noteq> None \<and> map_of newAttrs k = None \<longrightarrow>
            deltasFor k (diff J oldAttrs newAttrs) = [Remove k]) \<and>
         (\<forall>v. map_of oldAttrs k = None \<and> map_of newAttrs k = Some v \<longrightarrow>
            deltasFor k (diff J oldAttrs newAttrs) = [Add k (maybeJSONStringToArray J v)]) \<and>
         (\<forall>ov v. map_of oldAttrs k = Some ov \<and> map_of newAttrs k = Some v \<and> ov \<noteq> v \<longrightarrow>
            deltasFor k (diff J oldAttrs newAttrs) = [Replace k (maybeJSONStringToArray J v)]) \<and>
         (\<forall>v. map_of oldAttrs k = Some v \<and> map_of newAttrs k = Some v \<longrightarrow>
            deltasFor k (diff J oldAttrs newAttrs) = []) \<and>
         (map_of oldAttrs k = None \<and> map_of newAttrs k = None \<longrightarrow>
            deltasFor k (diff J oldAttrs newAttrs) = []) \<and>
         (\<exists>R A P. diff J oldAttrs newAttrs = R @ A @ P \<and>
            (\<forall>c\<in>set R. Operation c = DeleteAttribute) \<and>
            (\<forall>c\<in>set A. Operation c = AddAttribute) \<and>
            (\<forall>c\<in>set P. Operation c = ReplaceAttribute)) \<and>
         diff J [(''a'', ''1''), (''b'', ''2'')] [(''b'', ''2''), (''c'', ''3'')] =
           [Remove ''a'', Add ''c'' [''3'']]"
proof -
  have names: "deltasFor k (diff J oldAttrs newAttrs) =
    (case (map_of oldAttrs k, map_of newAttrs k) of
       (None, None) \<Rightarrow> []
     | (Some ov, None) \<Rightarrow> [Remove k]
     | (None, Some v) \<Rightarrow> [Add k (maybeJSONStringToArray J v)]
     | (Some ov, Some v) \<Rightarrow> if ov \<noteq> v then [Replace k (maybeJSONStringToArray J v)] else [])"
    by (rule diff_deltasFor [OF assms])
  let ?R = "map Remove (filter (\<lambda>k. map_of newAttrs k = None) (map fst oldAttrs))"
  let ?A = "map (\<lambda>(k, v). Add k (maybeJSONStringToArray J v))
              (filter (\<lambda>(k, v). map_of oldAttrs k = None) newAttrs)"
  let ?P = "map (\<lambda>(k, v). Replace k (maybeJSONStringToArray J v))
              (filter (\<lambda>(k, v). \<exists>ov. map_of oldAttrs k = Some ov \<and> ov \<noteq> v) newAttrs)"
  have "diff J oldAttrs newAttrs = ?R @ ?A @ ?P" by (rule diff_eq)
  moreover have "\<forall>c\<in>set ?R. Operation c = DeleteAttribute" by auto
  moreover have "\<forall>c\<in>set ?A. Operation c = AddAttribute" by auto
  moreover have "\<forall>c\<in>set ?P. Operation c = ReplaceAttribute" by auto
  ultimately have order: "\<exists>R A P. diff J oldAttrs newAttrs = R @ A @ P \<and>
            (\<forall>c\<in>set R. Operation c = DeleteAttribute) \<and>
            (\<forall>c\<in>set A. Operation c = AddAttribute) \<and>
            (\<forall>c\<in>set P. Operation c = ReplaceAttribute)" by blast
  have example: "diff J [(''a'', ''1''), (''b'', ''2'')] [(''b'', ''2''), (''c'', ''3'')] =
           [Remove ''a'', Add ''c'' [''3'']]" by code_simp
  from names have cases: "(map_of oldAttrs k \<noteq> None \<and> map_of newAttrs k = None \<longrightarrow>
            deltasFor k (diff J oldAttrs newAttrs) = [Remove k]) \<and>
         (\<forall>v. map_of oldAttrs k = None \<and> map_of newAttrs k = Some v \<longrightarrow>
            deltasFor k (diff J oldAttrs newAttrs) = [Add k (maybeJSONStringToArray J v)]) \<and>
         (\<forall>ov v. map_of oldAttrs k = Some ov \<and> map_of newAttrs k = Some v \<and> ov \<noteq> v \<longrightarrow>
            deltasFor k (diff J oldAttrs newAttrs) = [Replace k (maybeJSONStringToArray J v)]) \<and>
         (\<forall>v. map_of oldAttrs k = Some v \<and> map_of newAttrs k = Some v \<longrightarrow>
            deltasFor k (diff J oldAttrs newAttrs) = []) \<and>
         (map_of oldAttrs k = None \<and> map_of newAttrs k = None \<longrightarrow>
            deltasFor k (diff J oldAttrs newAttrs) = [])"
    by (auto split: option.splits)
  from cases order example show ?thesis by blast
qed

text \<open>One name of each kind: removed, added, replaced and unchanged.\<close>

theorem map_diff_deltas_witness:
  "wf_map [(''a'', ''1''), (''b'', ''2''), (''d'', ''x'')] \<and>
   wf_map [(''b'', ''2''), (''c'', ''3''), (''d'', ''[]'')] \<and>
   deltasFor ''a'' (diff sampleJSON [(''a'', ''1''), (''b'', ''2''), (''d'', ''x'')]
                                    [(''b'', ''2''), (''c'', ''3''), (''d'', ''[]'')]) = [Remove ''a''] \<and>
   deltasFor ''c'' (diff sampleJSON [(''a'', ''1''), (''b'', ''2''), (''d'', ''x'')]
                                    [(''b'', ''2''), (''c'', ''3''), (''d'', ''[]'')]) = [Add ''c'' [''3'']] \<and>
   deltasFor ''d'' (diff sampleJSON [(''a'', ''1''), (''b'', ''2''), (''d'', ''x'')]
                                    [(''b'', ''2''), (''c'', ''3''), (''d'', ''[]'')]) = [Replace ''d'' []] \<and>
   deltasFor ''b'' (diff sampleJSON [(''a'', ''1''), (''b'', ''2''), (''d'', ''x'')]
                                    [(''b'', ''2''), (''c'', ''3''), (''d'', ''[]'')]) = [] \<and>
   diff sampleJSON [(''a'', ''1''), (''b'', ''2''), (''d'', ''x'')]
                   [(''b'', ''2''), (''c'', ''3''), (''d'', ''[]'')] =
     [Remove ''a'', Add ''c'' [''3''], Replace ''d'' []]"
proof -
  let ?old = "[(''a'', ''1''), (''b'', ''2''), (''d'', ''x'')]"
  let ?new = "[(''b'', ''2''), (''c'', ''3''), (''d'', ''[]'')]"
  have o: "wf_map ?old" and n: "wf_map ?new" by (simp_all add: wf_map_def)
  have p3: "maybeJSONStringToArray sampleJSON ''3'' = [''3'']" by code_simp
  have pe: "maybeJSONStringToArray sampleJSON ''[]'' = []" by code_simp
  have a: "deltasFor ''a'' (diff sampleJSON ?old ?new) = [Remove ''a'']"
    using map_diff_deltas [OF o n, of "''a''" sampleJSON] by simp
  have c: "deltasFor ''c'' (diff sampleJSON ?old ?new) = [Add ''c'' [''3'']]"
    using map_diff_deltas [OF o n, of "''c''" sampleJSON] by (simp add: p3)
  have d: "deltasFor ''d'' (diff sampleJSON ?old ?new) = [Replace ''d'' []]"
    using map_diff_deltas [OF o n, of "''d''" sampleJSON] by (simp add: pe)
  have b: "deltasFor ''b'' (diff sampleJSON ?old ?new) = []"
    using map_diff_deltas [OF o n, of "''b''" sampleJSON] by simp
  have e: "diff sampleJSON ?old ?new = [Remove ''a'', Add ''c'' [''3''], Replace ''d'' []]"
    by code_simp
  from o n a c d b e show ?thesis by blast
qed

text \<open>
  Claim C5.  When the string starts with \<open>[\<close> after its leading white space is
  trimmed and the JSON decoding into a list of strings succeeds,
  \<open>maybeJSONStringToArray\<close> returns the decoded list; when the trimmed string does not
  start with \<open>[\<close>, and when the decoding fails, it returns the string itself,
  unchanged, as the only element.  The function has no error result: a failure of the
  decoding is not reported.
\<close>

theorem maybeJSONStringToArray_cases:
  "(\<forall>arr. HasPrefix (TrimLeft raw) ''['' \<and> Unmarshal J raw = Inr arr \<longrightarrow>
      maybeJSONStringToArray J raw = arr) \<and>
   (\<not> HasPrefix (TrimLeft raw) ''['' \<longrightarrow> maybeJSONStringToArray J raw = [raw]) \<and>
   (\<forall>err. Unmarshal J raw = Inl err \<longrightarrow> maybeJSONStringToArray J raw = [raw])"
  by (auto simp: maybeJSONStringToArray_def HasPrefix_TrimSpace)

text \<open>An array, a plain value, and a value that starts with a bracket and is no JSON.\<close>

theorem maybeJSONStringToArray_cases_witness:
  "HasPrefix (TrimLeft ''[\"a\",\"b\"]'') ''['' \<and>
   Unmarshal sampleJSON ''[\"a\",\"b\"]'' = Inr [''a'', ''b''] \<and>
   maybeJSONStringToArray sampleJSON ''[\"a\",\"b\"]'' = [''a'', ''b''] \<and>
   \<not> HasPrefix (TrimLeft ''x@y'') ''['' \<and>
   maybeJSONStringToArray sampleJSON ''x@y'' = [''x@y''] \<and>
   HasPrefix (TrimLeft '' [draft] notes'') ''['' \<and>
   Unmarshal sampleJSON '' [draft] notes'' = Inl (OtherError ''invalid character'') \<and>
   maybeJSONStringToArray sampleJSON '' [draft] notes'' = ['' [draft] notes'']"
proof -
  have 1: "HasPrefix (TrimLeft ''[\"a\",\"b\"]'') ''[''" by code_simp
  have 2: "Unmarshal sampleJSON ''[\"a\",\"b\"]'' = Inr [''a'', ''b'']" by code_simp
  have 3: "\<not> HasPrefix (TrimLeft ''x@y'') ''[''" by code_simp
  have 4: "HasPrefix (TrimLeft '' [draft] notes'') ''[''" by code_simp
  have 5: "Unmarshal sampleJSON '' [draft] notes'' = Inl (OtherError ''invalid character'')"
    by code_simp
  from maybeJSONStringToArray_cases [of "''[\"a\",\"b\"]''" sampleJSON] 1 2
  have 6: "maybeJSONStringToArray sampleJSON ''[\"a\",\"b\"]'' = [''a'', ''b'']" by blast
  from maybeJSONStringToArray_cases [of "''x@y''" sampleJSON] 3
  have 7: "maybeJSONStringToArray sampleJSON ''x@y'' = [''x@y'']" by blast
  from maybeJSONStringToArray_cases [of "'' [draft] notes''" sampleJSON] 5
  have 8: "maybeJSONStringToArray sampleJSON '' [draft] notes'' = ['' [draft] notes'']" by blast
  from 1 2 3 4 5 6 7 8 show ?thesis by blast
qed

section \<open>The claims on equal inputs and on empty value lists\<close>

lemma wf_map_lookup: "wf_map m \<Longrightarrow> (k, v) \<in> set m \<Longrightarrow> map_of m k = Some v"
  by (simp add: wf_map_def)

text \<open>
  Claim C6.  The diff of declared attributes against themselves is the empty sequence
  of deltas, for a map of attributes and for a set of attributes.
\<close>

theorem diff_of_equal_is_empty:
  "(wf_map X \<longrightarrow> diff J X X = []) \<and> diff_set F Y Y = []"
proof -
  have "diff J X X = []" if w: "wf_map X"
  proof -
    have "filter (\<lambda>k. map_of X k = None) (map fst X) = []"
      by (auto simp: filter_empty_conv map_of_eq_None_iff)
    moreover have "filter (\<lambda>(k, v). map_of X k = None) X = []"
      by (auto simp: filter_empty_conv map_of_eq_None_iff intro: rev_image_eqI)
    moreover have "filter (\<lambda>(k, v). \<exists>ov. map_of X k = Some ov \<and> ov \<noteq> v) X = []"
      using wf_map_lookup [OF w] by (auto simp: filter_empty_conv)
    ultimately show ?thesis by (simp add: diff_eq)
  qed
  moreover have "Set_Difference F Y Y = []"
    by (auto simp: Set_Difference_def filter_empty_conv)
  then have "diff_set F Y Y = []"
    by (simp add: diff_set_def computeAndAddDeltas_set_def Set_List_def
        NewSet_def util_List_def NewModifyRequest_def Let_def)
  ultimately show ?thesis by blast
qed

text \<open>A map with an array-encoded value and a set with two values under one name.\<close>

theorem diff_of_equal_is_empty_witness:
  "wf_map [(''cn'', ''x''), (''mail'', ''[\"a\",\"b\"]'')] \<and>
   diff sampleJSON [(''cn'', ''x''), (''mail'', ''[\"a\",\"b\"]'')]
                   [(''cn'', ''x''), (''mail'', ''[\"a\",\"b\"]'')] = [] \<and>
   diff_set (attributeHash asciiQuote)
     [(''mail'', ''a''), (''mail'', ''b'')] [(''mail'', ''a''), (''mail'', ''b'')] = []"
proof -
  have w: "wf_map [(''cn'', ''x''), (''mail'', ''[\"a\",\"b\"]'')]" by (simp add: wf_map_def)
  from diff_of_equal_is_empty [of "[(''cn'', ''x''), (''mail'', ''[\"a\",\"b\"]'')]" sampleJSON
      "attributeHash asciiQuote" "[(''mail'', ''a''), (''mail'', ''b'')]"] w
  show ?thesis by blast
qed

text \<open>
  Claim C10.  \<open>maybeJSONStringToArray\<close> returns the empty list on a string that
  starts with \<open>[\<close> after trimming and decodes to the empty array, as \<open>[]\<close> does;
  the map-shaped diff then has an addition, or a replacement, of the attribute with no
  value at all.
\<close>

theorem empty_value_list_deltas:
  assumes "HasPrefix (TrimLeft raw) ''[''" and "Unmarshal J raw = Inr []"
  shows "maybeJSONStringToArray J raw = [] \<and>
         diff J [] [(name, raw)] = [Add name []] \<and>
         (ov \<noteq> raw \<longrightarrow> diff J [(name, ov)] [(name, raw)] = [Replace name []])"
proof -
  from assms have p: "maybeJSONStringToArray J raw = []"
    by (simp add: maybeJSONStringToArray_def HasPrefix_TrimSpace)
  then show ?thesis by (simp add: diff_eq)
qed

text \<open>The string \<open>[]\<close> as the new value of an attribute that is new, or that had a value.\<close>

theorem empty_value_list_deltas_witness:
  "HasPrefix (TrimLeft ''[]'') ''['' \<and>
   Unmarshal sampleJSON ''[]'' = Inr [] \<and>
   maybeJSONStringToArray sampleJSON ''[]'' = [] \<and>
   diff sampleJSON [] [(''member'', ''[]'')] = [Add ''member'' []] \<and>
   diff sampleJSON [(''member'', ''uid=a'')] [(''member'', ''[]'')] = [Replace ''member'' []]"
proof -
  have b: "HasPrefix (TrimLeft ''[]'') ''[''" by code_simp
  have u: "Unmarshal sampleJSON ''[]'' = Inr []" by code_simp
  from empty_value_list_deltas [OF b u, of "''member''" "''uid=a''"] b u
  show ?thesis by simp
qed

section \<open>The claim on the errors of the directory\<close>

lemma computeAndAddDeltas_no_error: "snd (computeAndAddDeltas J modify oldAttrs newAttrs) = None"
  by (simp add: computeAndAddDeltas_def Let_def)

lemma computeAndAddDeltas_set_no_error: "snd (computeAndAddDeltas_set F modify os ns) = None"
  by (simp add: computeAndAddDeltas_set_def Let_def split: prod.splits)

lemma updateRequest_no_error: "snd (updateRequest J d) = None"
  by (simp add: updateRequest_def Let_def computeAndAddDeltas_no_error)

lemma updateRequest_set_no_error: "snd (updateRequest_set quote d) = None"
  by (simp add: updateRequest_set_def Let_def computeAndAddDeltas_set_no_error)

text \<open>
  Claim C8.  When the lookup of a read fails with the result code 32 (no such object),
  \<open>resourceLDAPObjectRead\<close> sets the id of the resource to the empty string and
  returns no error; when the lookup fails with any other error, the read returns this
  error.  When the modification of an update fails, the update returns the error of the
  modification, and when the deletion fails, the delete returns the error of the
  deletion, whatever the error is, the result code 32 included.  This holds for the
  map-shaped and for the set-shaped resource.
\<close>

theorem lookup_and_write_errors:
  "(Search client srv (dn d) = Inl (LDAPError 32) \<longrightarrow>
      resourceLDAPObjectRead J client srv d = Some (SetId d [], None)) \<and>
   (\<forall>err. Search client srv (dn d) = Inl err \<and> err \<noteq> LDAPError 32 \<longrightarrow>
      resourceLDAPObjectRead J client srv d = Some (d, Some err)) \<and>
   (Search client srv (dn ds) = Inl (LDAPError 32) \<longrightarrow>
      resourceLDAPObjectRead_set quote client srv ds = Some (SetId ds [], None)) \<and>
   (\<forall>err. Search client srv (dn ds) = Inl err \<and> err \<noteq> LDAPError 32 \<longrightarrow>
      resourceLDAPObjectRead_set quote client srv ds = Some (ds, Some err)) \<and>
   (\<forall>err srv'. Modify client srv (fst (updateRequest J d)) = (srv', Some err) \<longrightarrow>
      resourceLDAPObjectUpdate J client srv d = Some (srv', d, Some err)) \<and>
   (\<forall>err srv'. Modify client srv (fst (updateRequest_set quote ds)) = (srv', Some err) \<longrightarrow>
      resourceLDAPObjectUpdate_set quote client srv ds = Some (srv', ds, Some err)) \<and>
   (\<forall>err srv'. Del client srv (dn d) = (srv', Some err) \<longrightarrow>
      resourceLDAPObjectDelete client srv d = (srv', Some err))"
proof -
  have r: "resourceLDAPObjectRead J client srv d =
             (if err = LDAPError 32 then Some (SetId d [], None) else Some (d, Some err))"
    if "Search client srv (dn d) = Inl err" for err
    using that by (cases err) (auto simp: resourceLDAPObjectRead_def readLDAPObject_def)
  have rs: "resourceLDAPObjectRead_set quote client srv ds =
             (if err = LDAPError 32 then Some (SetId ds [], None) else Some (ds, Some err))"
    if "Search client srv (dn ds) = Inl err" for err
    using that by (cases err) (auto simp: resourceLDAPObjectRead_set_def readLDAPObject_set_def)
  have u: "resourceLDAPObjectUpdate J client srv d = Some (srv', d, Some err)"
    if "Modify client srv (fst (updateRequest J d)) = (srv', Some err)" for err srv'
    using that updateRequest_no_error [of J d]
    by (cases "updateRequest J d") (simp add: resourceLDAPObjectUpdate_def)
  have us: "resourceLDAPObjectUpdate_set quote client srv ds = Some (srv', ds, Some err)"
    if "Modify client srv (fst (updateRequest_set quote ds)) = (srv', Some err)" for err srv'
    using that updateRequest_set_no_error [of quote ds]
    by (cases "updateRequest_set quote ds") (simp add: resourceLDAPObjectUpdate_set_def)
  from r rs u us show ?thesis
    by (simp add: resourceLDAPObjectDelete_def)
qed

text \<open>
  A directory that answers every call with the result code 32, and one that answers
  with the result code 50 (insufficient access rights).
\<close>

theorem lookup_and_write_errors_witness:
  "Search (failingClient 32) () (dn (resourceData ''cn=x,dc=example'' [] [(''sn'', ''y'')])) =
     Inl (LDAPError 32) \<and>
   resourceLDAPObjectRead sampleJSON (failingClient 32) ()
       (resourceData ''cn=x,dc=example'' [] [(''sn'', ''y'')]) =
     Some (SetId (resourceData ''cn=x,dc=example'' [] [(''sn'', ''y'')]) [], None) \<and>
   ID (SetId (resourceData ''cn=x,dc=example'' [] [(''sn'', ''y'')]) []) = [] \<and>
   resourceLDAPObjectRead_set asciiQuote (failingClient 32) ()
       (resourceData ''cn=x,dc=example'' [] [(''sn'', ''y'')]) =
     Some (SetId (resourceData ''cn=x,dc=example'' [] [(''sn'', ''y'')]) [], None) \<and>
   Search (failingClient 50) () (dn (resourceData ''cn=x,dc=example'' [] [(''sn'', ''y'')])) =
     Inl (LDAPError 50) \<and>
   resourceLDAPObjectRead sampleJSON (failingClient 50) ()
       (resourceData ''cn=x,dc=example'' [] [(''sn'', ''y'')]) =
     Some (resourceData ''cn=x,dc=example'' [] [(''sn'', ''y'')], Some (LDAPError 50)) \<and>
   resourceLDAPObjectRead_set asciiQuote (failingClient 50) ()
       (resourceData ''cn=x,dc=example'' [] [(''sn'', ''y'')]) =
     Some (resourceData ''cn=x,dc=example'' [] [(''sn'', ''y'')], Some (LDAPError 50)) \<and>
   resourceLDAPObjectUpdate sampleJSON (failingClient 32) ()
       (resourceData ''cn=x,dc=example'' [] [(''sn'', ''y'')]) =
     Some ((), resourceData ''cn=x,dc=example'' [] [(''sn'', ''y'')], Some (LDAPError 32)) \<and>
   resourceLDAPObjectUpdate_set asciiQuote (failingClient 32) ()
       (resourceData ''cn=x,dc=example'' [] [(''sn'', ''y'')]) =
     Some ((), resourceData ''cn=x,dc=example'' [] [(''sn'', ''y'')], Some (LDAPError 32)) \<and>
   resourceLDAPObjectDelete (failingClient 32) ()
       (resourceData ''cn=x,dc=example'' [] [(''sn'', ''y'')]) = ((), Some (LDAPError 32))"
proof -
  let ?d = "resourceData ''cn=x,dc=example'' [] [(''sn'', ''y'')]"
  have s32: "Search (failingClient 32) () b = Inl (LDAPError 32)"
    and m32: "Modify (failingClient 32) () req = ((), Some (LDAPError 32))"
    and d32: "Del (failingClient 32) () b = ((), Some (LDAPError 32))"
    and s50: "Search (failingClient 50) () b = Inl (LDAPError 50)" for b req
    by (simp_all add: failingClient_def)
  have i: "ID (SetId ?d []) = []" by (simp add: SetId_def)
  from lookup_and_write_errors [where client = "failingClient 32" and srv = "()" and d = ?d
      and ds = ?d and J = sampleJSON and quote = asciiQuote]
    lookup_and_write_errors [where client = "failingClient 50" and srv = "()" and d = ?d
      and ds = ?d and J = sampleJSON and quote = asciiQuote]
  show ?thesis
    by (simp add: s32 m32 d32 s50 i)
qed

section \<open>The claims on the declared attributes of an entry\<close>

lemma stringListContains_iff: "stringListContains needle haystack = (needle \<in> set haystack)"
  by (induction haystack) auto

lemma keys_update: "fst ` set (AList.update k v al) = insert k (fst ` set al)"
  by (induction al) auto

lemma readAttributes_keys:
  "readAttributes J base skip init attrs = Inr m \<Longrightarrow>
   fst ` set m =
     fst ` set init \<union> {Name a |a. a \<in> set attrs \<and> Name a \<notin> set skip \<and> \<not> rdnMatch base a}"
proof (induction attrs arbitrary: init)
  case Nil
  then show ?case by simp
next
  case (Cons x attrs)
  show ?case
  proof (cases "Name x \<in> set skip \<or> rdnMatch base x")
    case True
    with Cons.prems have "readAttributes J base skip init attrs = Inr m"
      by (auto simp: stringListContains_iff rdnMatch_def split: if_splits)
    from Cons.IH [OF this] True show ?thesis by auto
  next
    case False
    then obtain s where "readAttributes J base skip (AList.update (Name x) s init) attrs = Inr m"
      using Cons.prems
      by (auto simp: stringListContains_iff rdnMatch_def split: if_splits sum.splits)
    from Cons.IH [OF this] False show ?thesis by (auto simp: keys_update)
  qed
qed

lemma set_Set_Add_subset: "set (Set_Add F s item) \<subseteq> insert item (set s)"
  by (auto simp: Set_Add_def)

lemma set_Set_Add_inj:
  assumes "inj_on (hashcode F) (insert item (set s))"
  shows "set (Set_Add F s item) = insert item (set s)"
proof (cases "hashcode F item \<in> hashcode F ` set s")
  case True
  then obtain x where "x \<in> set s" "hashcode F x = hashcode F item" by auto
  with assms have "x = item" by (auto simp: inj_on_def)
  with \<open>x \<in> set s\<close> True show ?thesis by (auto simp: Set_Add_def)
next
  case False
  then show ?thesis by (simp add: Set_Add_def)
qed

lemma set_addValues_subset:
  "set (addValues F s name vs) \<subseteq> set s \<union> {(name, v) |v. v \<in> set vs}"
proof (induction F s name vs rule: addValues.induct)
  case (1 F s name)
  then show ?case by simp
next
  case (2 F s name v rest)
  with set_Set_Add_subset [of F s "(name, v)"] show ?case by auto
qed

lemma set_addValues_inj:
  "inj_on (hashcode F) (set s \<union> {(name, v) |v. v \<in> set vs}) \<Longrightarrow>
   set (addValues F s name vs) = set s \<union> {(name, v) |v. v \<in> set vs}"
proof (induction F s name vs rule: addValues.induct)
  case (1 F s name)
  then show ?case by simp
next
  case (2 F s name v rest)
  have sub: "insert (name, v) (set s) \<subseteq> set s \<union> {(name, w) |w. w \<in> set (v # rest)}" by auto
  have add: "set (Set_Add F s (name, v)) = insert (name, v) (set s)"
    by (rule set_Set_Add_inj) (rule inj_on_subset [OF "2.prems" sub])
  have "set (Set_Add F s (name, v)) \<union> {(name, w) |w. w \<in> set rest} =
          set s \<union> {(name, w) |w. w \<in> set (v # rest)}"
    unfolding add by auto
  with "2.prems" "2.IH" show ?case by simp
qed

lemma setEntries_Nil [simp]: "setEntries base [] = {}"
  by (simp add: setEntries_def)

lemma setEntries_Cons:
  "setEntries base (x # attrs) =
     (if Name x = ''objectClass'' \<or> rdnMatch base x then {}
      else {(Name x, v) |v. v \<in> set (Values x)}) \<union> setEntries base attrs"
  by (auto simp: setEntries_def)

lemma readAttributes_set_step:
  "readAttributes_set F base s (x # attrs) =
     (if Name x = ''objectClass'' \<or> rdnMatch base x
      then readAttributes_set F base s attrs
      else readAttributes_set F base (addValues F s (Name x) (Values x)) attrs)"
  by (simp add: rdnMatch_def)

lemma set_readAttributes_set_subset:
  "set (readAttributes_set F base s attrs) \<subseteq> set s \<union> setEntries base attrs"
proof (induction attrs arbitrary: s)
  case Nil
  then show ?case by simp
next
  case (Cons x attrs)
  show ?case
  proof (cases "Name x = ''objectClass'' \<or> rdnMatch base x")
    case True
    then have st: "readAttributes_set F base s (x # attrs) = readAttributes_set F base s attrs"
      by (simp only: readAttributes_set_step if_True)
    from Cons.IH [of s] show ?thesis unfolding st by (auto simp: setEntries_Cons)
  next
    case False
    then have st: "readAttributes_set F base s (x # attrs) =
        readAttributes_set F base (addValues F s (Name x) (Values x)) attrs"
      by (simp only: readAttributes_set_step if_False)
    from False have e: "setEntries base (x # attrs) =
        {(Name x, v) |v. v \<in> set (Values x)} \<union> setEntries base attrs"
      by (simp add: setEntries_Cons)
    from Cons.IH [of "addValues F s (Name x) (Values x)"]
      set_addValues_subset [of F s "Name x" "Values x"]
    show ?thesis unfolding st e by blast
  qed
qed

lemma set_readAttributes_set_inj:
  "inj_on (hashcode F) (set s \<union> setEntries base attrs) \<Longrightarrow>
   set (readAttributes_set F base s attrs) = set s \<union> setEntries base attrs"
proof (induction attrs arbitrary: s)
  case Nil
  then show ?case by simp
next
  case (Cons x attrs)
  show ?case
  proof (cases "Name x = ''objectClass'' \<or> rdnMatch base x")
    case True
    with Cons.prems have "inj_on (hashcode F) (set s \<union> setEntries base attrs)"
      by (simp add: setEntries_Cons)
    moreover from True have "readAttributes_set F base s (x # attrs) =
        readAttributes_set F base s attrs"
      by (simp only: readAttributes_set_step if_True)
    moreover from True have "setEntries base (x # attrs) = setEntries base attrs"
      by (simp add: setEntries_Cons)
    ultimately show ?thesis using Cons.IH [of s] by simp
  next
    case False
    let ?new = "{(Name x, v) |v. v \<in> set (Values x)}"
    from False have e: "setEntries base (x # attrs) = ?new \<union> setEntries base attrs"
      by (simp add: setEntries_Cons)
    have "inj_on (hashcode F) (set s \<union> ?new)"
      by (rule inj_on_subset [OF Cons.prems]) (auto simp: e)
    then have add: "set (addValues F s (Name x) (Values x)) = set s \<union> ?new"
      by (rule set_addValues_inj)
    have "inj_on (hashcode F) (set (addValues F s (Name x) (Values x)) \<union> setEntries base attrs)"
      by (rule inj_on_subset [OF Cons.prems]) (auto simp: e add)
    from Cons.IH [OF this]
    have "set (readAttributes_set F base (addValues F s (Name x) (Values x)) attrs) =
        set s \<union> ?new \<union> setEntries base attrs"
      unfolding add .
    moreover from False have "readAttributes_set F base s (x # attrs) =
        readAttributes_set F base (addValues F s (Name x) (Values x)) attrs"
      by (simp only: readAttributes_set_step if_False)
    ultimately show ?thesis unfolding e by (simp add: Un_assoc)
  qed
qed

lemma readLDAPObject_attributes:
  assumes "Search client srv (dn d) = Inr (e # es)"
    and "readLDAPObject J client srv d u = Some (d', None)"
  shows "readAttributes J (dn d) (''objectClass'' # skip_attributes d) [] (Attributes e) =
           Inr (attributes d')"
  using assms
  by (auto simp: readLDAPObject_def SetId_def Let_def split: sum.splits)

lemma readLDAPObject_set_attributes:
  assumes "Search client srv (dn d) = Inr (e # es)"
  shows "\<exists>d'. readLDAPObject_set quote client srv d u = Some (d', None) \<and>
           attributes d' = readAttributes_set (attributeHash quote) (dn d) [] (Attributes e)"
  using assms
  by (auto simp: readLDAPObject_set_def SetId_def Let_def)

lemma readLDAPObject_keys:
  assumes "Search client srv (dn d) = Inr (e # es)"
    and "readLDAPObject J client srv d u = Some (d', None)"
  shows "fst ` set (attributes d') =
           {Name a |a. a \<in> set (Attributes e) \<and> Name a \<noteq> ''objectClass'' \<and>
              Name a \<notin> set (skip_attributes d) \<and> \<not> rdnMatch (dn d) a}"
  using readAttributes_keys [OF readLDAPObject_attributes [OF assms]] by auto

lemma readLDAPObject_set_elements:
  assumes "Search client srv (dn d) = Inr (e # es)"
    and "readLDAPObject_set quote client srv d u = Some (d', r)"
  shows "set (attributes d') \<subseteq> setEntries (dn d) (Attributes e)"
  using readLDAPObject_set_attributes [OF assms(1), of quote u] assms(2)
    set_readAttributes_set_subset [of "attributeHash quote" "dn d" "[]" "Attributes e"]
  by auto

lemma readLDAPObject_set_name:
  assumes "Search client srv (dn d) = Inr (e # es)"
    and "readLDAPObject_set quote client srv d u = Some (d', r)"
    and "k \<in> fst ` set (attributes d')"
  shows "\<exists>a\<in>set (Attributes e). Name a = k \<and> Name a \<noteq> ''objectClass'' \<and> \<not> rdnMatch (dn d) a"
proof -
  from assms(3) obtain v where "(k, v) \<in> set (attributes d')" by auto
  with readLDAPObject_set_elements [OF assms(1,2)]
  have "(k, v) \<in> setEntries (dn d) (Attributes e)" by blast
  then show ?thesis by (auto simp: setEntries_def)
qed

lemma attributeHash_sn_bar: "attributeHash asciiQuote (''sn'', ''bar'') = 1882905499"
  by (simp add: attributeHash_def asciiQuote_def ChecksumIEEE_def crcUpdate_def crcShift_def)

lemmas read_set_eval = readLDAPObject_set_def entryClient_def exampleData_def resourceData_def
  SetId_def GetAttributeValues_def rdnString_def HasPrefix_def Set_Add_def hashcode_def Let_def

text \<open>
  Claim C7.  When the search returns an entry and the read succeeds, the declared
  attributes that the read stores, as a map and as a set, have no entry under the name
  \<open>objectClass\<close>; every name they have is the name of an attribute of the entry
  that does not pass the RDN test; and an attribute that passes it (a single value, and
  \<open>name=value\<close> a prefix of the DN), and is the only attribute of the entry with its
  name, has no entry.
\<close>

theorem read_omits_objectClass_and_rdn:
  assumes "Search client srv (dn d) = Inr (e # es)"
    and "readLDAPObject J client srv d u = Some (d', None)"
    and "readLDAPObject_set quote client srv d u = Some (ds', r)"
  shows "''objectClass'' \<notin> fst ` set (attributes d') \<and>
         ''objectClass'' \<notin> fst ` set (attributes ds') \<and>
         (\<forall>k\<in>fst ` set (attributes d'). \<exists>a\<in>set (Attributes e). Name a = k \<and> \<not> rdnMatch (dn d) a) \<and>
         (\<forall>k\<in>fst ` set (attributes ds'). \<exists>a\<in>set (Attributes e). Name a = k \<and> \<not> rdnMatch (dn d) a) \<and>
         (\<forall>a\<in>set (Attributes e).
            rdnMatch (dn d) a \<and> (\<forall>b\<in>set (Attributes e). Name b = Name a \<longrightarrow> b = a) \<longrightarrow>
            Name a \<notin> fst ` set (attributes d') \<and> Name a \<notin> fst ` set (attributes ds'))"
proof -
  let ?A = "set (Attributes e)"
  have m: "k \<in> fst ` set (attributes d') \<longleftrightarrow>
             (\<exists>a\<in>?A. Name a = k \<and> Name a \<noteq> ''objectClass'' \<and>
                Name a \<notin> set (skip_attributes d) \<and> \<not> rdnMatch (dn d) a)" for k
    unfolding readLDAPObject_keys [OF assms(1,2)] by blast
  note s = readLDAPObject_set_name [OF assms(1,3)]
  have 1: "''objectClass'' \<notin> fst ` set (attributes d')" unfolding m by blast
  have 2: "''objectClass'' \<notin> fst ` set (attributes ds')" using s by blast
  have 3: "\<forall>k\<in>fst ` set (attributes d'). \<exists>a\<in>?A. Name a = k \<and> \<not> rdnMatch (dn d) a"
    using m by blast
  have 4: "\<forall>k\<in>fst ` set (attributes ds'). \<exists>a\<in>?A. Name a = k \<and> \<not> rdnMatch (dn d) a"
    using s by blast
  have 5: "Name a \<notin> fst ` set (attributes d') \<and> Name a \<notin> fst ` set (attributes ds')"
    if "a \<in> ?A" and "rdnMatch (dn d) a" and "\<forall>b\<in>?A. Name b = Name a \<longrightarrow> b = a" for a
  proof -
    have n: "\<not> (\<exists>b\<in>?A. Name b = Name a \<and> \<not> rdnMatch (dn d) b)" using that by blast
    then have "Name a \<notin> fst ` set (attributes d')" unfolding m by blast
    moreover from n s have "Name a \<notin> fst ` set (attributes ds')" by blast
    ultimately show ?thesis ..
  qed
  from 1 2 3 4 5 show ?thesis by blast
qed

text \<open>
  An entry with its object classes, the \<open>cn\<close> of its RDN, a two-valued and a
  single-valued attribute.
\<close>

theorem read_omits_objectClass_and_rdn_witness:
  "Search (entryClient exampleEntry) () (dn exampleData) = Inr [exampleEntry] \<and>
   readLDAPObject sampleJSON (entryClient exampleEntry) () exampleData True =
     Some (exampleData
             \<lparr>object_classes := [''top'', ''person''],
              attributes := [(''mail'', ''[\"a\",\"b\"]''), (''sn'', ''w'')]\<rparr>, None) \<and>
   readLDAPObject_set asciiQuote (entryClient exampleEntry) () exampleData True =
     Some (exampleData
             \<lparr>object_classes := [''top'', ''person''],
              attributes := [(''mail'', ''a''), (''mail'', ''b''), (''sn'', ''w'')]\<rparr>, None) \<and>
   EntryAttribute ''cn'' [''foobar''] \<in> set (Attributes exampleEntry) \<and>
   rdnMatch (dn exampleData) (EntryAttribute ''cn'' [''foobar'']) \<and>
   ''objectClass'' \<notin> fst ` set [(''mail'', ''[\"a\",\"b\"]''), (''sn'', ''w'')] \<and>
   ''objectClass'' \<notin> fst ` set [(''mail'', ''a''), (''mail'', ''b''), (''sn'', ''w'')] \<and>
   ''cn'' \<notin> fst ` set [(''mail'', ''[\"a\",\"b\"]''), (''sn'', ''w'')] \<and>
   ''cn'' \<notin> fst ` set [(''mail'', ''a''), (''mail'', ''b''), (''sn'', ''w'')]"
proof -
  let ?m = "exampleData\<lparr>object_classes := [''top'', ''person''],
               attributes := [(''mail'', ''[\"a\",\"b\"]''), (''sn'', ''w'')]\<rparr>"
  let ?s = "exampleData\<lparr>object_classes := [''top'', ''person''],
               attributes := [(''mail'', ''a''), (''mail'', ''b''), (''sn'', ''w'')]\<rparr>"
  let ?cn = "EntryAttribute ''cn'' [''foobar'']"
  have s: "Search (entryClient exampleEntry) () (dn exampleData) = Inr [exampleEntry]"
    by (simp add: entryClient_def)
  have rm: "readLDAPObject sampleJSON (entryClient exampleEntry) () exampleData True = Some (?m, None)"
    by code_simp
  have rs: "readLDAPObject_set asciiQuote (entryClient exampleEntry) () exampleData True =
      Some (?s, None)"
    by (simp add: read_set_eval exampleEntry_def attributeHash_mail_abc attributeHash_cn_sn_mail)
  have a: "?cn \<in> set (Attributes exampleEntry)" by (simp add: exampleEntry_def)
  have p: "rdnMatch (dn exampleData) ?cn" by code_simp
  have u: "\<forall>b\<in>set (Attributes exampleEntry). Name b = Name ?cn \<longrightarrow> b = ?cn"
    by (simp add: exampleEntry_def)
  note t = read_omits_objectClass_and_rdn [OF s rm rs]
  have am: "attributes ?m = [(''mail'', ''[\"a\",\"b\"]''), (''sn'', ''w'')]"
    and as: "attributes ?s = [(''mail'', ''a''), (''mail'', ''b''), (''sn'', ''w'')]"
    and n: "Name ?cn = ''cn''"
    by simp_all
  have c1: "''objectClass'' \<notin> fst ` set [(''mail'', ''[\"a\",\"b\"]''), (''sn'', ''w'')]"
    using t [THEN conjunct1] unfolding am .
  have c2: "''objectClass'' \<notin> fst ` set [(''mail'', ''a''), (''mail'', ''b''), (''sn'', ''w'')]"
    using t [THEN conjunct2, THEN conjunct1] unfolding as .
  have "rdnMatch (dn exampleData) ?cn \<and>
        (\<forall>b\<in>set (Attributes exampleEntry). Name b = Name ?cn \<longrightarrow> b = ?cn) \<longrightarrow>
        Name ?cn \<notin> fst ` set (attributes ?m) \<and> Name ?cn \<notin> fst ` set (attributes ?s)"
    by (rule bspec [OF t [THEN conjunct2, THEN conjunct2, THEN conjunct2, THEN conjunct2] a])
  from this [THEN mp, OF conjI [OF p u]]
  have c5: "''cn'' \<notin> fst ` set [(''mail'', ''[\"a\",\"b\"]''), (''sn'', ''w'')] \<and>
            ''cn'' \<notin> fst ` set [(''mail'', ''a''), (''mail'', ''b''), (''sn'', ''w'')]"
    unfolding am as n .
  from s rm rs a p c1 c2 c5 show ?thesis by (intro conjI) (erule conjunct1 conjunct2 | assumption)+
qed

text \<open>
  Claim C9.  The RDN test is a test on the prefix of the whole DN: a single-valued
  attribute whose \<open>name=value\<close> is a prefix of the DN and is not the leading RDN of
  the DN is omitted from the declared attributes all the same, in the map and in the
  set, when no other attribute of the entry has its name.
\<close>

theorem prefix_match_omits_attribute:
  assumes "Search client srv (dn d) = Inr (e # es)"
    and "readLDAPObject J client srv d u = Some (d', None)"
    and "readLDAPObject_set quote client srv d u = Some (ds', r)"
    and "a \<in> set (Attributes e)"
    and "Values a = [v]"
    and "HasPrefix (dn d) (rdnString (Name a) v)"
    and "rdnString (Name a) v \<noteq> leadingRDN (dn d)"
    and "\<forall>b\<in>set (Attributes e). Name b = Name a \<longrightarrow> b = a"
  shows "Name a \<notin> fst ` set (attributes d') \<and> Name a \<notin> fst ` set (attributes ds')"
proof -
  from assms(5,6) have m: "rdnMatch (dn d) a" by (simp add: rdnMatch_def)
  have 1: "Name a \<notin> fst ` set (attributes d')"
  proof
    assume "Name a \<in> fst ` set (attributes d')"
    then obtain b where "b \<in> set (Attributes e)" "Name b = Name a" "\<not> rdnMatch (dn d) b"
      unfolding readLDAPObject_keys [OF assms(1,2)] by auto
    with assms(8) m show False by blast
  qed
  have 2: "Name a \<notin> fst ` set (attributes ds')"
  proof
    assume "Name a \<in> fst ` set (attributes ds')"
    from readLDAPObject_set_name [OF assms(1,3) this]
    obtain b where "b \<in> set (Attributes e)" "Name b = Name a" "\<not> rdnMatch (dn d) b" by blast
    with assms(8) m show False by blast
  qed
  from 1 2 show ?thesis ..
qed

text \<open>
  The attribute \<open>cn\<close> with the value \<open>foo\<close> under the DN
  \<open>cn=foobar,dc=example\<close>, whose RDN is \<open>cn=foobar\<close>.
\<close>

theorem prefix_match_omits_attribute_witness:
  "Search (entryClient prefixEntry) () (dn exampleData) = Inr [prefixEntry] \<and>
   readLDAPObject sampleJSON (entryClient prefixEntry) () exampleData True =
     Some (exampleData\<lparr>object_classes := [''top'', ''person''],
                        attributes := [(''sn'', ''bar'')]\<rparr>, None) \<and>
   readLDAPObject_set asciiQuote (entryClient prefixEntry) () exampleData True =
     Some (exampleData\<lparr>object_classes := [''top'', ''person''],
                        attributes := [(''sn'', ''bar'')]\<rparr>, None) \<and>
   EntryAttribute ''cn'' [''foo''] \<in> set (Attributes prefixEntry) \<and>
   dn exampleData = ''cn=foobar,dc=example'' \<and>
   HasPrefix ''cn=foobar,dc=example'' (rdnString ''cn'' ''foo'') \<and>
   leadingRDN ''cn=foobar,dc=example'' = ''cn=foobar'' \<and>
   rdnString ''cn'' ''foo'' \<noteq> ''cn=foobar'' \<and>
   ''cn'' \<notin> fst ` set [(''sn'', ''bar'')]"
proof -
  let ?r = "exampleData\<lparr>object_classes := [''top'', ''person''],
               attributes := [(''sn'', ''bar'')]\<rparr>"
  let ?cn = "EntryAttribute ''cn'' [''foo'']"
  have s: "Search (entryClient prefixEntry) () (dn exampleData) = Inr [prefixEntry]"
    by (simp add: entryClient_def)
  have rm: "readLDAPObject sampleJSON (entryClient prefixEntry) () exampleData True = Some (?r, None)"
    by code_simp
  have rs: "readLDAPObject_set asciiQuote (entryClient prefixEntry) () exampleData True =
      Some (?r, None)"
    by (simp add: read_set_eval prefixEntry_def)
  have a: "?cn \<in> set (Attributes prefixEntry)" by (simp add: prefixEntry_def)
  have v: "Values ?cn = [''foo'']" and n: "Name ?cn = ''cn''" by simp_all
  have b: "dn exampleData = ''cn=foobar,dc=example''"
    by (simp add: exampleData_def resourceData_def)
  have hp: "HasPrefix ''cn=foobar,dc=example'' (rdnString ''cn'' ''foo'')" by code_simp
  have l: "leadingRDN ''cn=foobar,dc=example'' = ''cn=foobar''" by code_simp
  have ne: "rdnString ''cn'' ''foo'' \<noteq> ''cn=foobar''" by code_simp
  have u: "\<forall>b\<in>set (Attributes prefixEntry). Name b = Name ?cn \<longrightarrow> b = ?cn"
    by (simp add: prefixEntry_def)
  have hp': "HasPrefix (dn exampleData) (rdnString (Name ?cn) ''foo'')"
    unfolding b n by (rule hp)
  have ne': "rdnString (Name ?cn) ''foo'' \<noteq> leadingRDN (dn exampleData)"
    unfolding b n l by (rule ne)
  have ar: "attributes ?r = [(''sn'', ''bar'')]" by simp
  have c: "''cn'' \<notin> fst ` set [(''sn'', ''bar'')]"
    using prefix_match_omits_attribute [OF s rm rs a v hp' ne' u, THEN conjunct1]
    unfolding ar n .
  from s rm rs a b hp l ne c show ?thesis
    by (intro conjI) (erule conjunct1 conjunct2 | assumption)+
qed

end
